theory Spec2Isabelle
  imports Complex_Main
begin

unbundle bit_operations_syntax

section \<open>Common conventions\<close>

text \<open>
  Python integers are unbounded: packet identifiers, TTL values and counters are \<open>nat\<close>
  (the receivers only ever see non-negative field values), the TTL given on the command
  line is an \<open>int\<close>. Values of \<open>time.time()\<close> are read as \<open>real\<close>: every place where
  the source reads the clock is an explicit argument of the model. A \<open>str\<close> is a
  \<open>string\<close>, \<open>ord\<close> is \<open>of_char\<close> and \<open>chr\<close> is \<open>char_of\<close>; both receivers apply
  \<open>chr\<close> to values below 256 only, and a message given to the sender is taken to
  consist of characters with code points below 256.
  Console output made while packets are processed and the \<open>debug\<close> flag, which only
  selects additional printing, are left out.
\<close>

datatype exn = KeyboardInterrupt | PermissionError | OSError | TypeError

text \<open>\<open>range(0, n, step)\<close> for a positive \<open>step\<close>.\<close>

definition range_step :: "nat \<Rightarrow> nat \<Rightarrow> nat list" where
  "range_step n step = map (\<lambda>k. k * step) [0..<(n + step - 1) div step]"

section \<open>Storage channel: receiver (storage_receiver.py)\<close>

text \<open>
  A sniffed packet either has no IP layer or carries the two header fields the
  callback reads, \<open>pkt[IP].id\<close> and \<open>pkt[IP].ttl\<close>.
\<close>

datatype packet = NonIP | IPPacket nat nat

text \<open>
  The attributes of \<open>StorageChannelReceiver\<close> that change or are compared while
  running. \<open>bytes_per_packet\<close> and \<open>eof_threshold\<close> are assigned once in
  \<open>__init__\<close> and never again, so they are constants here.
\<close>

record receiver =
  expected_ttl :: int
  decoded_bytes :: string
  start_time :: "real option"
  packet_count :: nat
  last_packet_id :: "nat option"
  system_packets_filtered :: nat

definition bytes_per_packet :: nat where
  "bytes_per_packet = 2"

definition eof_threshold :: nat where
  "eof_threshold = 0xFFFF"

definition init_receiver :: "int \<Rightarrow> receiver" where
  "init_receiver ttl =
     \<lparr>expected_ttl = ttl, decoded_bytes = [], start_time = None,
      packet_count = 0, last_packet_id = None, system_packets_filtered = 0\<rparr>"

text \<open>
  The byte loop of \<open>packet_callback\<close> (lines 73 to 91): \<open>is\<close> are the remaining
  values of \<open>i\<close>, \<open>byte_list\<close> is the list built so far. A zero byte leaves the
  loop (\<open>break\<close>).
\<close>

fun decode_loop :: "nat \<Rightarrow> nat list \<Rightarrow> string \<Rightarrow> string" where
  "decode_loop encoded_value [] byte_list = byte_list"
| "decode_loop encoded_value (i # is) byte_list =
     (let byte_val = drop_bit (i * 8) encoded_value AND 0xFF in
      if byte_val = 0 then byte_list
      else if 32 \<le> byte_val \<and> byte_val \<le> 126
        then decode_loop encoded_value is (byte_list @ [char_of byte_val])
        else decode_loop encoded_value is byte_list)"

text \<open>
  Lines 68 to 91: the characters one identifier yields. The loop variable runs over
  \<open>range(bytes_per_packet - 1, -1, -1)\<close>, that is from the high byte down.
\<close>

definition decode_word :: "nat \<Rightarrow> string" where
  "decode_word encoded_value =
     decode_loop encoded_value (rev [0..<bytes_per_packet]) []"

text \<open>
  \<open>packet_callback\<close>; \<open>now\<close> is the value \<open>time.time()\<close> returns if the callback
  reads the clock.
\<close>

definition packet_callback :: "receiver \<Rightarrow> real \<Rightarrow> packet \<Rightarrow> receiver" where
  "packet_callback s now pkt =
     (case pkt of
        NonIP \<Rightarrow> s
      | IPPacket encoded_value ttl \<Rightarrow>
          if int ttl \<noteq> expected_ttl s
            then s\<lparr>system_packets_filtered := system_packets_filtered s + 1\<rparr>
          else if Some encoded_value = last_packet_id s then s
          else
            let s1 = s\<lparr>last_packet_id := Some encoded_value\<rparr>;
                s2 = (if start_time s1 = None then s1\<lparr>start_time := Some now\<rparr> else s1)
            in if encoded_value = eof_threshold then s2
               else s2\<lparr>decoded_bytes := decoded_bytes s2 @ decode_word encoded_value,
                       packet_count := packet_count s2 + 1\<rparr>)"

text \<open>
  \<open>sniff\<close> is the transport: it hands every captured packet to the callback, in
  order. The list pairs each packet with the clock value at its arrival.
\<close>

fun sniff :: "receiver \<Rightarrow> (real \<times> packet) list \<Rightarrow> receiver" where
  "sniff s [] = s"
| "sniff s ((now, pkt) # pkts) = sniff (packet_callback s now pkt) pkts"

text \<open>
  The words of the observations that pass the TTL test of line 43 for the expected
  TTL \<open>e\<close>, in the order of arrival. It is used to say which word is the last
  accepted one of a session: a suppressed duplicate carries the same word as the
  observation accepted before it, so the last accepted word is the last element of
  this list.
\<close>

fun accepted_words :: "int \<Rightarrow> (real \<times> packet) list \<Rightarrow> nat list" where
  "accepted_words e [] = []"
| "accepted_words e ((now, NonIP) # pkts) = accepted_words e pkts"
| "accepted_words e ((now, IPPacket w ttl) # pkts) =
     (if int ttl = e then w # accepted_words e pkts else accepted_words e pkts)"

datatype results =
  NoPacketsReceived
  | Results string nat nat nat real real

text \<open>
  \<open>print_results\<close>: the report is either the line "No packets received" or the
  fields Message, Length, Packets, Filtered, Time and Rate, in this order.
\<close>

definition print_results :: "receiver \<Rightarrow> real \<Rightarrow> results" where
  "print_results s now =
     (let message = decoded_bytes s in
      case start_time s of
        None \<Rightarrow> NoPacketsReceived
      | Some t0 \<Rightarrow>
          let elapsed = now - t0;
              bits_decoded = length (decoded_bytes s) * 8;
              bps = (if elapsed > 0 then real bits_decoded / elapsed else 0)
          in Results message (length (decoded_bytes s)) (packet_count s)
               (system_packets_filtered s) elapsed bps)"

text \<open>
  \<open>run\<close>: the call of \<open>sniff\<close> processes the packets and then either raises or
  returns. Each of the three handlers prints the results; nothing is printed after a
  normal return. The result is the final state and the report, if one is printed.
\<close>

datatype sniff_end = Raises exn | Returns

definition run :: "receiver \<Rightarrow> (real \<times> packet) list \<Rightarrow> sniff_end \<Rightarrow> real
    \<Rightarrow> receiver \<times> results option" where
  "run s pkts ending now =
     (let s' = sniff s pkts in
      case ending of
        Raises KeyboardInterrupt \<Rightarrow> (s', Some (print_results s' now))
      | Raises PermissionError \<Rightarrow> (s', Some (print_results s' now))
      | Raises e \<Rightarrow> (s', Some (print_results s' now))
      | Returns \<Rightarrow> (s', None))"

section \<open>Storage channel: sender (storage_sender.py)\<close>

text \<open>\<open>str.ljust(width, fillchar)\<close>.\<close>

definition ljust :: "string \<Rightarrow> nat \<Rightarrow> char \<Rightarrow> string" where
  "ljust s width fillchar = s @ replicate (width - length s) fillchar"

text \<open>
  Lines 41 to 48 of \<open>send_storage_channel\<close>: the identifiers of the data packets, one
  for each chunk of the message.
\<close>

definition encode :: "string \<Rightarrow> nat list" where
  "encode message =
     map (\<lambda>i. let chunk = take bytes_per_packet (drop i message);
                 chunk = ljust chunk bytes_per_packet (CHR 0x00)
             in foldl (\<lambda>encoded_value c. push_bit 8 encoded_value OR of_char c) 0 chunk)
       (range_step (length message) bytes_per_packet)"

section \<open>Timing channel: receiver (timing_receiver.py)\<close>

text \<open>
  One call of \<open>sock.recvfrom\<close> followed by \<open>time.time()\<close>: a datagram with its
  payload and the clock value, or an exception.
\<close>

datatype recv = Datagram string real | RecvRaises exn

text \<open>
  The local variables of \<open>receive_timing_channel\<close> that the loop updates.
  \<open>bit_labels\<close> always equals \<open>bits\<close> and is not kept apart. The log file and
  the statistics over \<open>iats\<close> (lines 85 to 96, every division guarded by a test that
  the list is not empty) are not modelled.
\<close>

record timing =
  bits :: string
  iats :: "real list"
  prev_time :: "real option"
  t_start_time :: "real option"
  eof_count :: nat
  packets_received :: nat

definition init_timing :: timing where
  "init_timing =
     \<lparr>bits = [], iats = [], prev_time = None, t_start_time = None,
      eof_count = 0, packets_received = 0\<rparr>"

text \<open>
  How the \<open>while True\<close> loop ends on a finite sequence of receive events: by
  \<open>break\<close>, by an exception that nothing catches, or it is still blocked in
  \<open>recvfrom\<close> when the events are used up.
\<close>

datatype loop_end = Break timing | Uncaught exn | Blocked timing

fun recv_loop :: "real \<Rightarrow> timing \<Rightarrow> recv list \<Rightarrow> loop_end" where
  "recv_loop threshold s [] = Blocked s"
| "recv_loop threshold s (RecvRaises e # evs) = Uncaught e"
| "recv_loop threshold s (Datagram data current_time # evs) =
     (let s = s\<lparr>packets_received := packets_received s + 1\<rparr> in
      if data = ''EOF'' then
        (let s = s\<lparr>eof_count := eof_count s + 1\<rparr> in
         if eof_count s \<ge> 2 then Break s else recv_loop threshold s evs)
      else if t_start_time s = None then
        recv_loop threshold
          (s\<lparr>t_start_time := Some current_time, prev_time := Some current_time\<rparr>) evs
      else
        (case prev_time s of
           None \<Rightarrow> Uncaught TypeError
         | Some p \<Rightarrow>
             let iat = current_time - p;
                 bit = (if iat > threshold then CHR ''1'' else CHR ''0'')
             in recv_loop threshold
                  (s\<lparr>iats := iats s @ [iat], bits := bits s @ [bit],
                     prev_time := Some current_time\<rparr>) evs))"

text \<open>
  \<open>int(c, 2)\<close> for a string of the characters 0 and 1, the only ones the loop
  appends to \<open>bits\<close>.
\<close>

definition int_base2 :: "string \<Rightarrow> nat" where
  "int_base2 c = foldl (\<lambda>n d. 2 * n + (if d = CHR ''1'' then 1 else 0)) 0 c"

text \<open>Lines 78 to 80: the message assembled from the bit string.\<close>

definition bits_to_message :: "string \<Rightarrow> string" where
  "bits_to_message bits_str =
     (let chars = map (\<lambda>i. take 8 (drop i bits_str)) (range_step (length bits_str) 8)
      in map (\<lambda>c. char_of (int_base2 c)) (filter (\<lambda>c. length c = 8) chars))"

datatype timing_results = TimingResults string nat nat real real

text \<open>
  Lines 77 to 112: the report with the fields Message, Bits, Packets, Time and Rate.
  Subtracting \<open>None\<close> from a float raises \<open>TypeError\<close>.
\<close>

definition finalize :: "timing \<Rightarrow> real \<Rightarrow> exn + timing_results" where
  "finalize s now =
     (let message = bits_to_message (bits s) in
      case t_start_time s of
        None \<Rightarrow> Inl TypeError
      | Some t0 \<Rightarrow>
          let elapsed = now - t0;
              bps = (if elapsed > 0 then real (length (bits s)) / elapsed else 0)
          in Inr (TimingResults message (length (bits s)) (packets_received s) elapsed bps))"

datatype timing_outcome = Reported timing_results | Crashed exn | Waiting

definition receive_timing_channel :: "real \<Rightarrow> recv list \<Rightarrow> real \<Rightarrow> timing_outcome" where
  "receive_timing_channel threshold evs now =
     (case recv_loop threshold init_timing evs of
        Break s \<Rightarrow> (case finalize s now of Inl e \<Rightarrow> Crashed e | Inr r \<Rightarrow> Reported r)
      | Uncaught e \<Rightarrow> Crashed e
      | Blocked s \<Rightarrow> Waiting)"

section \<open>Properties of the storage codec\<close>

lemma rev_range_bytes: "rev [0..<bytes_per_packet] = [1, 0]"
  by (simp add: bytes_per_packet_def upt_rec)

lemma drop_bit_8_nat: "drop_bit 8 (w::nat) = w div 256"
  by (simp add: drop_bit_eq_div)

lemma and_255_nat: "(w::nat) AND 0xFF = w mod 256"
proof -
  have "w AND mask 8 = take_bit 8 w"
    by (simp add: take_bit_eq_mask)
  then show ?thesis
    by (simp add: take_bit_eq_mod mask_eq_exp_minus_1)
qed

lemma char_of_65: "char_of (65::nat) = CHR ''A''"
  by code_simp

lemma char_of_66: "char_of (66::nat) = CHR ''B''"
  by code_simp

text \<open>
  The two bytes the loop looks at are \<open>w div 256 mod 256\<close> (first) and
  \<open>w mod 256\<close> (second); the second is only reached when the first is not zero.
\<close>

lemma decode_word_bytes:
  "decode_word w =
     (if w div 256 mod 256 = 0 then []
      else (if 32 \<le> w div 256 mod 256 \<and> w div 256 mod 256 \<le> 126
            then [char_of (w div 256 mod 256)] else []) @
           (if w mod 256 = 0 then []
            else if 32 \<le> w mod 256 \<and> w mod 256 \<le> 126
              then [char_of (w mod 256)] else []))"
  unfolding decode_word_def rev_range_bytes
  by (simp add: drop_bit_8_nat and_255_nat Let_def)

text \<open>
  C6: \<open>decode_word\<close> scans the high byte, then the low byte. A zero byte ends the
  scan of the word, so a zero high byte hides the low byte; a byte from 32 to 126 is
  appended as a character; any other byte is dropped and the scan goes on. The four
  examples: 0x4100 gives "A", 0x0041 gives the empty string, 0x4142 gives "AB", 0x0141
  gives "A".
\<close>

theorem decode_word_scan:
  "decode_word w =
     (if w div 256 mod 256 = 0 then []
      else (if 32 \<le> w div 256 mod 256 \<and> w div 256 mod 256 \<le> 126
            then [char_of (w div 256 mod 256)] else []) @
           (if w mod 256 = 0 then []
            else if 32 \<le> w mod 256 \<and> w mod 256 \<le> 126
              then [char_of (w mod 256)] else []))
   \<and> decode_word 0x4100 = ''A'' \<and> decode_word 0x0041 = []
   \<and> decode_word 0x4142 = ''AB'' \<and> decode_word 0x0141 = ''A''"
proof -
  have e1: "decode_word 0x4100 = ''A''"
    by (simp add: decode_word_bytes char_of_65)
  have e2: "decode_word 0x0041 = []"
    by (simp add: decode_word_bytes)
  have e3: "decode_word 0x4142 = ''AB''"
    by (simp add: decode_word_bytes char_of_65 char_of_66)
  have e4: "decode_word 0x0141 = ''A''"
    by (simp add: decode_word_bytes char_of_65)
  show ?thesis
    by (rule conjI [OF decode_word_bytes conjI [OF e1 conjI [OF e2 conjI [OF e3 e4]]]])
qed

theorem decode_word_scan_witness:
  "decode_word 0x007E = [] \<and> decode_word 0x7F41 = [char_of (65::nat)]
   \<and> decode_word 0x2000 = [char_of (32::nat)]"
  using decode_word_scan [of "0x007E"] decode_word_scan [of "0x7F41"]
    decode_word_scan [of "0x2000"]
  by simp

section \<open>Properties of the storage stream decoder\<close>

lemma char_of_67: "char_of (67::nat) = CHR ''C''"
  by code_simp

lemma char_of_68: "char_of (68::nat) = CHR ''D''"
  by code_simp

lemma packet_callback_duplicate:
  "int ttl = expected_ttl s \<Longrightarrow> last_packet_id s = Some w \<Longrightarrow>
   packet_callback s now (IPPacket w ttl) = s"
  by (simp add: packet_callback_def)

lemma packet_callback_first:
  "int ttl = expected_ttl s \<Longrightarrow> last_packet_id s = None \<Longrightarrow>
   last_packet_id (packet_callback s now (IPPacket w ttl)) = Some w"
  by (simp add: packet_callback_def Let_def)

lemma packet_callback_first_data:
  "int ttl = expected_ttl s \<Longrightarrow> last_packet_id s = None \<Longrightarrow> w \<noteq> eof_threshold \<Longrightarrow>
   decoded_bytes (packet_callback s now (IPPacket w ttl)) = decoded_bytes s @ decode_word w
   \<and> packet_count (packet_callback s now (IPPacket w ttl)) = packet_count s + 1"
  by (simp add: packet_callback_def Let_def)

lemma decode_4142: "decode_word 0x4142 = ''AB''"
  by (simp add: decode_word_bytes char_of_65 char_of_66)

lemma decode_4344: "decode_word 0x4344 = ''CD''"
  by (simp add: decode_word_bytes char_of_67 char_of_68)

lemma sniff_dup_example:
  "decoded_bytes (sniff (init_receiver 42)
     [(t1, IPPacket 0x4142 42), (t2, IPPacket 0x4142 42), (t3, IPPacket 0x4344 42)]) = ''ABCD''"
  by (simp add: init_receiver_def packet_callback_def eof_threshold_def decode_4142 decode_4344)

text \<open>
  C5, evaluated on the code: after 0x4142 and the end marker 0xFFFF, both with the
  expected TTL, the message is "AB" and one packet is counted, so the marker itself adds
  no character and is not counted. The callback keeps no record that the marker was
  seen: a later observation 0x4344 is decoded like any other, the message becomes
  "ABCD" and the packet counter 2.
\<close>

theorem eof_does_not_end_session:
  "sniff (init_receiver 42) [(0, IPPacket 0x4142 42), (1, IPPacket 0xFFFF 42)]
     = \<lparr>expected_ttl = 42, decoded_bytes = ''AB'', start_time = Some 0,
        packet_count = 1, last_packet_id = Some 0xFFFF, system_packets_filtered = 0\<rparr>
   \<and> sniff (init_receiver 42)
       [(0, IPPacket 0x4142 42), (1, IPPacket 0xFFFF 42), (2, IPPacket 0x4344 42)]
     = \<lparr>expected_ttl = 42, decoded_bytes = ''ABCD'', start_time = Some 0,
        packet_count = 2, last_packet_id = Some 0x4344, system_packets_filtered = 0\<rparr>"
  by (simp add: init_receiver_def packet_callback_def eof_threshold_def
      decode_4142 decode_4344)

lemma decode_word_printable:
  "c \<in> set (decode_word w) \<Longrightarrow> 32 \<le> (of_char c :: nat) \<and> (of_char c :: nat) \<le> 126"
  by (auto simp add: decode_word_bytes split: if_splits)

lemma decode_word_length: "length (decode_word w) \<le> 2"
  by (simp add: decode_word_bytes)

lemma packet_callback_decoded:
  "decoded_bytes (packet_callback s now pkt) = decoded_bytes s
   \<or> (\<exists>w. decoded_bytes (packet_callback s now pkt) = decoded_bytes s @ decode_word w)"
  by (cases pkt) (auto simp add: packet_callback_def Let_def)

lemma packet_callback_printable:
  assumes "\<forall>c\<in>set (decoded_bytes s). 32 \<le> (of_char c :: nat) \<and> (of_char c :: nat) \<le> 126"
  shows "\<forall>c\<in>set (decoded_bytes (packet_callback s now pkt)).
           32 \<le> (of_char c :: nat) \<and> (of_char c :: nat) \<le> 126"
  using assms packet_callback_decoded [of s now pkt] decode_word_printable
  by (metis Un_iff set_append)

lemma sniff_printable:
  "\<forall>c\<in>set (decoded_bytes s). 32 \<le> (of_char c :: nat) \<and> (of_char c :: nat) \<le> 126 \<Longrightarrow>
   \<forall>c\<in>set (decoded_bytes (sniff s pkts)).
     32 \<le> (of_char c :: nat) \<and> (of_char c :: nat) \<le> 126"
proof (induction pkts arbitrary: s)
  case Nil
  then show ?case by simp
next
  case (Cons p pkts)
  obtain now pkt where p: "p = (now, pkt)" by (cases p)
  from Cons.prems have "\<forall>c\<in>set (decoded_bytes (packet_callback s now pkt)).
      32 \<le> (of_char c :: nat) \<and> (of_char c :: nat) \<le> 126"
    by (rule packet_callback_printable)
  then show ?case unfolding p sniff.simps by (rule Cons.IH)
qed

lemma packet_callback_length:
  "length (decoded_bytes (packet_callback s now pkt)) \<le> length (decoded_bytes s) + 2"
  using packet_callback_decoded [of s now pkt] decode_word_length
  by (metis add_le_cancel_left le_add1 length_append)

lemma packet_callback_again:
  "decoded_bytes (packet_callback (packet_callback s now pkt) now' pkt)
   = decoded_bytes (packet_callback s now pkt)"
  by (cases pkt) (simp_all add: packet_callback_def Let_def)

lemma packet_callback_again_count:
  "packet_count (packet_callback (packet_callback s now pkt) now' pkt)
   = packet_count (packet_callback s now pkt)"
  by (cases pkt) (simp_all add: packet_callback_def Let_def)

lemma sniff_length:
  "length (decoded_bytes (sniff s pkts)) \<le> length (decoded_bytes s) + 2 * length pkts"
proof (induction pkts arbitrary: s)
  case Nil
  then show ?case by simp
next
  case (Cons p pkts)
  obtain now pkt where p: "p = (now, pkt)" by (cases p)
  have "length (decoded_bytes (sniff (packet_callback s now pkt) pkts))
      \<le> length (decoded_bytes (packet_callback s now pkt)) + 2 * length pkts"
    by (rule Cons.IH)
  with packet_callback_length [of s now pkt] show ?case
    unfolding p by simp
qed

lemma sniff_adjacent_equal:
  "Suc i < length pkts \<Longrightarrow> snd (pkts ! i) = snd (pkts ! Suc i) \<Longrightarrow>
   length (decoded_bytes (sniff s pkts)) + 2 \<le> length (decoded_bytes s) + 2 * length pkts"
proof (induction pkts arbitrary: s i)
  case Nil
  then show ?case by simp
next
  case (Cons p pkts)
  obtain now pkt where p: "p = (now, pkt)" by (cases p)
  show ?case
  proof (cases i)
    case 0
    with Cons.prems obtain q qs where pkts: "pkts = q # qs"
      by (cases pkts) auto
    obtain now' pkt' where q: "q = (now', pkt')" by (cases q)
    from Cons.prems 0 pkts p q have same: "pkt' = pkt" by simp
    have "length (decoded_bytes (sniff (packet_callback (packet_callback s now pkt) now' pkt) qs))
        \<le> length (decoded_bytes (packet_callback (packet_callback s now pkt) now' pkt))
          + 2 * length qs"
      by (rule sniff_length)
    with packet_callback_again [of s now pkt now'] packet_callback_length [of s now pkt]
    show ?thesis unfolding p pkts q same by simp
  next
    case (Suc j)
    with Cons.prems have "Suc j < length pkts" "snd (pkts ! j) = snd (pkts ! Suc j)"
      by simp_all
    then have "length (decoded_bytes (sniff (packet_callback s now pkt) pkts)) + 2
        \<le> length (decoded_bytes (packet_callback s now pkt)) + 2 * length pkts"
      by (rule Cons.IH)
    with packet_callback_length [of s now pkt] show ?thesis
      unfolding p by simp
  qed
qed

lemma sniff_append: "sniff s (xs @ ys) = sniff (sniff s xs) ys"
  by (induction xs arbitrary: s) auto

lemma packet_callback_eof:
  "decoded_bytes (packet_callback s now (IPPacket eof_threshold ttl)) = decoded_bytes s"
  by (simp add: packet_callback_def Let_def)

lemma sniff_eof_markers:
  "map snd pkts = replicate n (IPPacket eof_threshold ttl) \<Longrightarrow>
   decoded_bytes (sniff s pkts) = decoded_bytes s"
proof (induction pkts arbitrary: s n)
  case Nil
  then show ?case by simp
next
  case (Cons p pkts)
  obtain now pkt where p: "p = (now, pkt)" by (cases p)
  from Cons.prems p obtain m where n: "n = Suc m" by (cases n) auto
  from Cons.prems p n have pkt: "pkt = IPPacket eof_threshold ttl"
    and rest: "map snd pkts = replicate m (IPPacket eof_threshold ttl)" by simp_all
  from Cons.IH [OF rest] packet_callback_eof show ?case
    unfolding p pkt by simp
qed

lemma length_encode: "length (encode message) = (length message + 1) div 2"
  by (simp add: encode_def range_step_def bytes_per_packet_def)


lemma encode_abab: "encode ''abab'' = [0x6162, 0x6162]"
  by (simp add: encode_def range_step_def bytes_per_packet_def ljust_def upt_rec)

lemma char_of_97: "char_of (97::nat) = CHR ''a''"
  by code_simp

lemma char_of_98: "char_of (98::nat) = CHR ''b''"
  by code_simp

lemma decode_6162: "decode_word 0x6162 = ''ab''"
  by (simp add: decode_word_bytes char_of_97 char_of_98)

lemma accepted_words_append:
  "accepted_words e (xs @ ys) = accepted_words e xs @ accepted_words e ys"
  by (induction e xs rule: accepted_words.induct) simp_all

lemma packet_callback_expected_ttl:
  "expected_ttl (packet_callback s now pkt) = expected_ttl s"
  by (cases pkt) (simp_all add: packet_callback_def Let_def)

lemma sniff_expected_ttl: "expected_ttl (sniff s pkts) = expected_ttl s"
  by (induction s pkts rule: sniff.induct) (simp_all add: packet_callback_expected_ttl)

lemma sniff_snoc: "sniff s (pkts @ [(now, pkt)]) = packet_callback (sniff s pkts) now pkt"
  by (simp add: sniff_append)

lemma sniff_last_packet_id:
  "last_packet_id (sniff (init_receiver e) pkts)
   = (if accepted_words e pkts = [] then None else Some (last (accepted_words e pkts)))"
proof (induction pkts rule: rev_induct)
  case Nil
  show ?case by (simp add: init_receiver_def)
next
  case (snoc p pkts)
  obtain now pkt where p: "p = (now, pkt)" by (cases p)
  have e: "expected_ttl (sniff (init_receiver e) pkts) = e"
    by (simp add: sniff_expected_ttl init_receiver_def)
  show ?case
  proof (cases pkt)
    case NonIP
    with snoc.IH show ?thesis
      unfolding p sniff_snoc accepted_words_append
      by (simp add: packet_callback_def)
  next
    case (IPPacket w ttl)
    with snoc.IH e show ?thesis
      unfolding p sniff_snoc accepted_words_append
      by (simp add: packet_callback_def Let_def)
  qed
qed

lemma remdups_adj_snoc:
  "remdups_adj (xs @ [x])
   = (if xs \<noteq> [] \<and> last xs = x then remdups_adj xs else remdups_adj xs @ [x])"
  by (induction xs rule: remdups_adj.induct) auto

lemma sniff_decoded:
  "decoded_bytes (sniff (init_receiver e) pkts)
     = concat (map decode_word
         (filter (\<lambda>w. w \<noteq> eof_threshold) (remdups_adj (accepted_words e pkts))))
   \<and> packet_count (sniff (init_receiver e) pkts)
     = length (filter (\<lambda>w. w \<noteq> eof_threshold) (remdups_adj (accepted_words e pkts)))"
proof (induction pkts rule: rev_induct)
  case Nil
  show ?case by (simp add: init_receiver_def)
next
  case (snoc p pkts)
  obtain now pkt where p: "p = (now, pkt)" by (cases p)
  have e: "expected_ttl (sniff (init_receiver e) pkts) = e"
    by (simp add: sniff_expected_ttl init_receiver_def)
  note l = sniff_last_packet_id [of e pkts]
  show ?case
  proof (cases pkt)
    case NonIP
    with snoc.IH show ?thesis
      unfolding p sniff_snoc accepted_words_append
      by (simp add: packet_callback_def)
  next
    case (IPPacket w ttl)
    with snoc.IH e l show ?thesis
      unfolding p sniff_snoc accepted_words_append
      by (auto simp add: packet_callback_def Let_def remdups_adj_snoc)
  qed
qed


lemma sniff_duplicate:
  assumes "int ttl = e" and "accepted_words e pkts \<noteq> []"
    and "w = last (accepted_words e pkts)"
  shows "sniff (init_receiver e) (pkts @ [(now, IPPacket w ttl)])
    = sniff (init_receiver e) pkts"
proof -
  have "expected_ttl (sniff (init_receiver e) pkts) = e"
    by (simp add: sniff_expected_ttl init_receiver_def)
  with assms(1) have t: "int ttl = expected_ttl (sniff (init_receiver e) pkts)"
    by simp
  from assms(2,3) have l: "last_packet_id (sniff (init_receiver e) pkts) = Some w"
    by (simp add: sniff_last_packet_id)
  from t l show ?thesis
    unfolding sniff_snoc by (rule packet_callback_duplicate)
qed

lemma sniff_fresh:
  assumes "int ttl = e"
    and "accepted_words e pkts = [] \<or> w \<noteq> last (accepted_words e pkts)"
  shows "last_packet_id (sniff (init_receiver e) (pkts @ [(now, IPPacket w ttl)])) = Some w
    \<and> (w \<noteq> eof_threshold \<longrightarrow>
        decoded_bytes (sniff (init_receiver e) (pkts @ [(now, IPPacket w ttl)]))
          = decoded_bytes (sniff (init_receiver e) pkts) @ decode_word w
        \<and> packet_count (sniff (init_receiver e) (pkts @ [(now, IPPacket w ttl)]))
          = packet_count (sniff (init_receiver e) pkts) + 1)"
proof -
  have "expected_ttl (sniff (init_receiver e) pkts) = e"
    by (simp add: sniff_expected_ttl init_receiver_def)
  with assms(1) have t: "int ttl = expected_ttl (sniff (init_receiver e) pkts)"
    by simp
  from assms(2) have l: "last_packet_id (sniff (init_receiver e) pkts) \<noteq> Some w"
    by (auto simp add: sniff_last_packet_id)
  from t l show ?thesis
    unfolding sniff_snoc by (auto simp add: packet_callback_def Let_def)
qed

text \<open>
  C8: throughout a session the receiver remembers the last accepted word: after any
  packets, \<open>last_packet_id\<close> is the word of the last observation that passed the
  TTL test, and it is unset as long as none has passed. An observation with the
  expected TTL whose word equals the last accepted word leaves the whole session
  state as it is. Any other observation with the expected TTL is not suppressed, in
  particular the very first one: it becomes the last accepted word and, unless it is
  the end marker, its characters are appended and the packet is counted. Taken over
  the whole stream, the message is decoded from the accepted words with adjacent
  repetitions removed and the end markers left out. The stream (0x4142, 42),
  (0x4142, 42), (0x4344, 42) with expected TTL 42 decodes to "ABCD".
\<close>

theorem duplicate_suppression:
  "(int ttl = expected_ttl s \<and> last_packet_id s = Some w \<longrightarrow>
      packet_callback s now (IPPacket w ttl) = s)
   \<and> (int ttl = expected_ttl s \<and> last_packet_id s = None \<longrightarrow>
      last_packet_id (packet_callback s now (IPPacket w ttl)) = Some w
      \<and> (w \<noteq> eof_threshold \<longrightarrow>
          decoded_bytes (packet_callback s now (IPPacket w ttl))
            = decoded_bytes s @ decode_word w
          \<and> packet_count (packet_callback s now (IPPacket w ttl)) = packet_count s + 1))
   \<and> last_packet_id (init_receiver e) = None
   \<and> last_packet_id (sniff (init_receiver e) pkts)
       = (if accepted_words e pkts = [] then None else Some (last (accepted_words e pkts)))
   \<and> (int ttl = e \<and> accepted_words e pkts \<noteq> [] \<and> w = last (accepted_words e pkts) \<longrightarrow>
      sniff (init_receiver e) (pkts @ [(now, IPPacket w ttl)]) = sniff (init_receiver e) pkts)
   \<and> (int ttl = e \<and> (accepted_words e pkts = [] \<or> w \<noteq> last (accepted_words e pkts)) \<longrightarrow>
      last_packet_id (sniff (init_receiver e) (pkts @ [(now, IPPacket w ttl)])) = Some w
      \<and> (w \<noteq> eof_threshold \<longrightarrow>
          decoded_bytes (sniff (init_receiver e) (pkts @ [(now, IPPacket w ttl)]))
            = decoded_bytes (sniff (init_receiver e) pkts) @ decode_word w
          \<and> packet_count (sniff (init_receiver e) (pkts @ [(now, IPPacket w ttl)]))
            = packet_count (sniff (init_receiver e) pkts) + 1))
   \<and> decoded_bytes (sniff (init_receiver e) pkts)
       = concat (map decode_word
           (filter (\<lambda>w. w \<noteq> eof_threshold) (remdups_adj (accepted_words e pkts))))
   \<and> packet_count (sniff (init_receiver e) pkts)
       = length (filter (\<lambda>w. w \<noteq> eof_threshold) (remdups_adj (accepted_words e pkts)))
   \<and> decoded_bytes (sniff (init_receiver 42)
        [(t1, IPPacket 0x4142 42), (t2, IPPacket 0x4142 42), (t3, IPPacket 0x4344 42)])
      = ''ABCD''"
proof -
  have a: "int ttl = expected_ttl s \<and> last_packet_id s = Some w \<longrightarrow>
      packet_callback s now (IPPacket w ttl) = s"
    using packet_callback_duplicate [of ttl s w now] by simp
  have b: "int ttl = expected_ttl s \<and> last_packet_id s = None \<longrightarrow>
      last_packet_id (packet_callback s now (IPPacket w ttl)) = Some w
      \<and> (w \<noteq> eof_threshold \<longrightarrow>
          decoded_bytes (packet_callback s now (IPPacket w ttl))
            = decoded_bytes s @ decode_word w
          \<and> packet_count (packet_callback s now (IPPacket w ttl)) = packet_count s + 1)"
    using packet_callback_first [of ttl s now w] packet_callback_first_data [of ttl s w now]
    by simp
  have c: "last_packet_id (init_receiver e) = None"
    by (simp add: init_receiver_def)
  have d: "int ttl = e \<and> accepted_words e pkts \<noteq> [] \<and> w = last (accepted_words e pkts) \<longrightarrow>
      sniff (init_receiver e) (pkts @ [(now, IPPacket w ttl)]) = sniff (init_receiver e) pkts"
    using sniff_duplicate [of ttl e pkts w now] by simp
  have f: "int ttl = e \<and> (accepted_words e pkts = [] \<or> w \<noteq> last (accepted_words e pkts)) \<longrightarrow>
      last_packet_id (sniff (init_receiver e) (pkts @ [(now, IPPacket w ttl)])) = Some w
      \<and> (w \<noteq> eof_threshold \<longrightarrow>
          decoded_bytes (sniff (init_receiver e) (pkts @ [(now, IPPacket w ttl)]))
            = decoded_bytes (sniff (init_receiver e) pkts) @ decode_word w
          \<and> packet_count (sniff (init_receiver e) (pkts @ [(now, IPPacket w ttl)]))
            = packet_count (sniff (init_receiver e) pkts) + 1)"
    using sniff_fresh [of ttl e pkts w now] by blast
  note g = sniff_decoded [of e pkts]
  note h = sniff_dup_example [of t1 t2 t3]
  note i = sniff_last_packet_id [of e pkts]
  from a b c i d f g h show ?thesis
    by (intro conjI) (rule a b c i d f h conjunct1 [OF g] conjunct2 [OF g])+
qed

theorem duplicate_suppression_witness:
  "packet_callback (packet_callback (init_receiver 42) 0 (IPPacket 0x4142 42)) 1
      (IPPacket 0x4142 42)
     = packet_callback (init_receiver 42) 0 (IPPacket 0x4142 42)
   \<and> decoded_bytes (packet_callback (init_receiver 42) 0 (IPPacket 0x4142 42)) = ''AB''
   \<and> packet_count (packet_callback (init_receiver 42) 0 (IPPacket 0x4142 42)) = 1
   \<and> accepted_words 42 [(0, IPPacket 0x4142 7), (1, IPPacket 0x4142 42)] = [0x4142]
   \<and> sniff (init_receiver 42)
        [(0, IPPacket 0x4142 7), (1, IPPacket 0x4142 42), (2, IPPacket 0x4142 42)]
     = sniff (init_receiver 42) [(0, IPPacket 0x4142 7), (1, IPPacket 0x4142 42)]
   \<and> decoded_bytes (sniff (init_receiver 42)
        [(0, IPPacket 0x4142 7), (1, IPPacket 0x4142 42)]) = ''AB''
   \<and> decoded_bytes (sniff (init_receiver 42)
        [(0, IPPacket 0x4142 7), (1, IPPacket 0x4142 42), (2, IPPacket 0x4344 42)])
     = ''ABCD''"
  using duplicate_suppression
      [where ttl = 42 and s = "packet_callback (init_receiver 42) 0 (IPPacket 0x4142 42)"
         and w = "0x4142" and now = 1 and e = 42
         and pkts = "[(0, IPPacket 0x4142 7), (1, IPPacket 0x4142 42)]"]
    duplicate_suppression
      [where ttl = 42 and s = "init_receiver 42" and w = "0x4142" and now = 1 and e = 42
         and pkts = "[(0, IPPacket 0x4142 7)]"]
    duplicate_suppression
      [where ttl = 42 and s = "init_receiver 42" and w = "0x4344" and now = 2 and e = 42
         and pkts = "[(0, IPPacket 0x4142 7), (1, IPPacket 0x4142 42)]"]
  by (simp add: init_receiver_def packet_callback_def eof_threshold_def decode_4142
      decode_4344)


text \<open>
  C2, as the code has it: whatever packets arrive, every character of the message of
  the storage receiver has a code point from 32 to 126.
\<close>

theorem storage_message_printable:
  "\<forall>c\<in>set (decoded_bytes (sniff (init_receiver ttl) pkts)).
     32 \<le> (of_char c :: nat) \<and> (of_char c :: nat) \<le> 126"
  by (rule sniff_printable) (simp add: init_receiver_def)

theorem storage_message_printable_witness:
  "decoded_bytes (sniff (init_receiver 42) [(0, IPPacket 0x4142 42), (1, IPPacket 0x0141 42)])
     = ''ABA''
   \<and> 32 \<le> (of_char (CHR ''A'') :: nat) \<and> (of_char (CHR ''B'') :: nat) \<le> 126"
  using storage_message_printable
      [of 42 "[(0, IPPacket 0x4142 42), (1, IPPacket 0x0141 42)]"]
  by (simp add: init_receiver_def packet_callback_def eof_threshold_def decode_4142
      decode_word_bytes char_of_65 char_of_66)

text \<open>
  C10: a packet that repeats the one before it is never decoded: handing the same
  packet to the callback a second time changes neither the message nor the packet
  counter. So when the identifiers the sender computes for a message contain the same value
  at two adjacent positions, the receiver does not recover the message from these
  packets followed by any number of end markers, even though every packet arrives
  once, in order, with the expected or any other TTL: the second of the two packets
  is taken for a duplicate. The message "abab" is sent as 0x6162 twice and received
  as "ab".
\<close>

theorem repeated_chunk_lost:
  assumes "Suc i < length (encode message)"
    and "encode message ! i = encode message ! Suc i"
    and "map snd pkts = map (\<lambda>w. IPPacket w ttl) (encode message @ replicate n eof_threshold)"
  shows "decoded_bytes (packet_callback (packet_callback s now pkt) now' pkt)
      = decoded_bytes (packet_callback s now pkt)
    \<and> packet_count (packet_callback (packet_callback s now pkt) now' pkt)
      = packet_count (packet_callback s now pkt)
    \<and> decoded_bytes (sniff (init_receiver e) pkts) \<noteq> message"
proof -
  define k where "k = length (encode message)"
  define xs where "xs = take k pkts"
  define ys where "ys = drop k pkts"
  have pkts: "pkts = xs @ ys"
    by (simp add: xs_def ys_def)
  from assms(3) have len: "length pkts = k + n"
    unfolding k_def by (metis length_append length_map length_replicate)
  from assms(3) have "take k (map snd pkts) = map (\<lambda>w. IPPacket w ttl) (encode message)"
    by (simp add: k_def)
  then have xs: "map snd xs = map (\<lambda>w. IPPacket w ttl) (encode message)"
    by (simp add: xs_def take_map)
  from assms(3) have "drop k (map snd pkts) = replicate n (IPPacket eof_threshold ttl)"
    by (simp add: k_def)
  then have ys: "map snd ys = replicate n (IPPacket eof_threshold ttl)"
    by (simp add: ys_def drop_map)
  from xs have lxs: "length xs = k"
    unfolding k_def by (metis length_map)
  from assms(1) lxs have i: "Suc i < length xs"
    by (simp add: k_def)
  then have "snd (xs ! i) = map snd xs ! i" and "snd (xs ! Suc i) = map snd xs ! Suc i"
    by simp_all
  with xs assms(1,2) have "snd (xs ! i) = snd (xs ! Suc i)"
    by simp
  with i have "length (decoded_bytes (sniff (init_receiver e) xs)) + 2
      \<le> length (decoded_bytes (init_receiver e)) + 2 * length xs"
    by (rule sniff_adjacent_equal)
  with lxs have "length (decoded_bytes (sniff (init_receiver e) xs)) + 2 \<le> 2 * k"
    by (simp add: init_receiver_def)
  moreover have "2 * k \<le> length message + 1"
    by (simp add: k_def length_encode)
  moreover have "decoded_bytes (sniff (init_receiver e) pkts)
      = decoded_bytes (sniff (init_receiver e) xs)"
    unfolding pkts sniff_append using ys by (rule sniff_eof_markers)
  ultimately have "length (decoded_bytes (sniff (init_receiver e) pkts)) < length message"
    by simp
  then have "decoded_bytes (sniff (init_receiver e) pkts) \<noteq> message"
    by auto
  with packet_callback_again [of s now pkt now']
    packet_callback_again_count [of s now pkt now']
  show ?thesis by simp
qed

theorem repeated_chunk_lost_witness:
  "encode ''abab'' = [0x6162, 0x6162]
   \<and> decoded_bytes (sniff (init_receiver 42)
        [(0, IPPacket 0x6162 42), (1, IPPacket 0x6162 42), (2, IPPacket 0xFFFF 42),
         (3, IPPacket 0xFFFF 42), (4, IPPacket 0xFFFF 42)]) = ''ab''
   \<and> decoded_bytes (sniff (init_receiver 42)
        [(0, IPPacket 0x6162 42), (1, IPPacket 0x6162 42), (2, IPPacket 0xFFFF 42),
         (3, IPPacket 0xFFFF 42), (4, IPPacket 0xFFFF 42)]) \<noteq> ''abab''"
  using repeated_chunk_lost
      [where message = "''abab''" and i = 0 and ttl = 42 and n = 3 and e = 42
         and pkts = "[(0, IPPacket 0x6162 42), (1, IPPacket 0x6162 42),
           (2, IPPacket 0xFFFF 42), (3, IPPacket 0xFFFF 42), (4, IPPacket 0xFFFF 42)]"]
  by (simp add: encode_abab init_receiver_def packet_callback_def eof_threshold_def
      decode_6162 numeral_3_eq_3)


section \<open>Reports and the end of a run\<close>

lemma char_of_1: "char_of (1::nat) = CHR 0x01"
  by code_simp

lemma char_of_Suc_0: "char_of (Suc 0) = CHR 0x01"
  using char_of_1 by simp

lemma bits_00000001: "bits_to_message ''00000001'' = [CHR 0x01]"
  by (simp add: bits_to_message_def range_step_def upt_rec int_base2_def char_of_Suc_0)

lemma recv_00000001:
  "recv_loop (3/2) init_timing
     [Datagram ''X'' 0, Datagram ''X'' 1, Datagram ''X'' 2, Datagram ''X'' 3,
      Datagram ''X'' 4, Datagram ''X'' 5, Datagram ''X'' 6, Datagram ''X'' 7,
      Datagram ''X'' 9, Datagram ''EOF'' 10, Datagram ''EOF'' 11]
   = Break \<lparr>bits = ''00000001'', iats = [1, 1, 1, 1, 1, 1, 1, 2], prev_time = Some 9,
       t_start_time = Some 0, eof_count = 2, packets_received = 11\<rparr>"
  by (simp add: init_timing_def)

text \<open>
  C2, the part that fails: the timing receiver turns every full group of eight bits
  into the character with that value, printable or not. Nine data packets, the last
  gap longer than the threshold, then two end markers: the bits are 00000001 and the
  message is the character with code point 1.
\<close>

theorem timing_message_not_printable:
  "receive_timing_channel (3/2)
     [Datagram ''X'' 0, Datagram ''X'' 1, Datagram ''X'' 2, Datagram ''X'' 3,
      Datagram ''X'' 4, Datagram ''X'' 5, Datagram ''X'' 6, Datagram ''X'' 7,
      Datagram ''X'' 9, Datagram ''EOF'' 10, Datagram ''EOF'' 11] 12
   = Reported (TimingResults [CHR 0x01] 8 11 12 (8 / 12))
   \<and> \<not> (32 \<le> (of_char (CHR 0x01) :: nat))"
  unfolding receive_timing_channel_def recv_00000001
  by (simp add: finalize_def bits_00000001 Let_def)

text \<open>
  C3, evaluated on the code: \<open>receive_timing_channel\<close> has no handler around
  \<open>recvfrom\<close>, so an interrupt, a permission error or an I/O error raised there
  leaves the function at once and no report is printed, although one bit has been
  decoded. The storage receiver catches all three and prints its results.
\<close>

theorem timing_interrupt_uncaught:
  "receive_timing_channel (3/2)
     [Datagram ''X'' 0, Datagram ''X'' 2, RecvRaises KeyboardInterrupt] 3
   = Crashed KeyboardInterrupt
   \<and> receive_timing_channel (3/2)
     [Datagram ''X'' 0, Datagram ''X'' 2, RecvRaises PermissionError] 3
   = Crashed PermissionError
   \<and> receive_timing_channel (3/2)
     [Datagram ''X'' 0, Datagram ''X'' 2, RecvRaises OSError] 3
   = Crashed OSError
   \<and> run (init_receiver 42) [(0, IPPacket 0x4142 42)] (Raises KeyboardInterrupt) 1
   = (sniff (init_receiver 42) [(0, IPPacket 0x4142 42)], Some (Results ''AB'' 2 1 0 1 16))"
  by (simp add: receive_timing_channel_def init_timing_def run_def print_results_def
      init_receiver_def packet_callback_def eof_threshold_def decode_4142)

text \<open>
  C4, evaluated on the code: when two end markers arrive before any data packet, the
  timing receiver leaves its loop with \<open>start_time\<close> still \<open>None\<close> and the
  subtraction in line 82 raises \<open>TypeError\<close>; nothing is reported.
\<close>

theorem timing_no_data_crash:
  "receive_timing_channel threshold [Datagram ''EOF'' t1, Datagram ''EOF'' t2] now
   = Crashed TypeError"
  by (simp add: receive_timing_channel_def init_timing_def finalize_def)

text \<open>
  C1, the part that fails: the word 0x4100 yields one character. After one second
  the storage receiver reports 8 bits per second, not 16: the rate counts decoded
  characters, eight bits each, not packets.
\<close>

theorem storage_rate_counts_characters:
  "print_results (sniff (init_receiver 42) [(0, IPPacket 0x4100 42)]) 1
     = Results ''A'' 1 1 0 1 8
   \<and> (8::real) \<noteq> real (packet_count (sniff (init_receiver 42) [(0, IPPacket 0x4100 42)])) * 16 / 1"
  by (simp add: print_results_def init_receiver_def packet_callback_def eof_threshold_def
      decode_word_bytes char_of_65)

text \<open>
  C1, as the code has it: once the clock has been started, the storage report gives
  as rate the number of decoded characters times 8 divided by the elapsed seconds,
  and the timing report the number of decoded bits divided by the elapsed seconds;
  both give 0 when the elapsed time is not positive.
\<close>

theorem throughput:
  "(start_time s = Some t \<longrightarrow>
      print_results s now
      = Results (decoded_bytes s) (length (decoded_bytes s)) (packet_count s)
          (system_packets_filtered s) (now - t)
          (if now - t > 0 then real (length (decoded_bytes s) * 8) / (now - t) else 0))
   \<and> (t_start_time ts = Some u \<longrightarrow>
      finalize ts now
      = Inr (TimingResults (bits_to_message (bits ts)) (length (bits ts))
          (packets_received ts) (now - u)
          (if now - u > 0 then real (length (bits ts)) / (now - u) else 0)))"
  by (simp add: print_results_def finalize_def Let_def)


theorem throughput_witness:
  "print_results (sniff (init_receiver 42) [(0, IPPacket 0x4100 42)]) 2
     = Results ''A'' 1 1 0 2 4
   \<and> finalize \<lparr>bits = ''00000001'', iats = [1, 1, 1, 1, 1, 1, 1, 2], prev_time = Some 9,
        t_start_time = Some 0, eof_count = 2, packets_received = 11\<rparr> 12
     = Inr (TimingResults [CHR 0x01] 8 11 12 (2 / 3))"
  using throughput
      [where s = "sniff (init_receiver 42) [(0, IPPacket 0x4100 42)]" and t = 0
         and now = 2 and u = 1 and ts = init_timing]
    throughput
      [where ts = "\<lparr>bits = ''00000001'', iats = [1, 1, 1, 1, 1, 1, 1, 2],
           prev_time = Some 9, t_start_time = Some 0, eof_count = 2,
           packets_received = 11\<rparr>"
         and u = 0 and now = 12 and t = 1 and s = "init_receiver 42"]
  by (simp add: init_receiver_def packet_callback_def eof_threshold_def
      decode_word_bytes char_of_65 bits_00000001)

section \<open>Round trip of the storage codec\<close>

lemma encode_Nil: "encode [] = []"
  by (simp add: encode_def range_step_def bytes_per_packet_def)

lemma range_step_2_Suc_Suc:
  "range_step (Suc (Suc n)) 2 = 0 # map (\<lambda>i. i + 2) (range_step n 2)"
proof -
  have "(Suc (Suc n) + 2 - 1) div 2 = Suc ((n + 2 - 1) div 2)"
    by simp
  then have "range_step (Suc (Suc n)) 2 = map (\<lambda>k. k * 2) [0..<Suc ((n + 2 - 1) div 2)]"
    by (simp only: range_step_def)
  also have "[0..<Suc ((n + 2 - 1) div 2)] = 0 # map Suc [0..<(n + 2 - 1) div 2]"
    by (simp only: map_Suc_upt upt_conv_Cons [of 0] zero_less_Suc)
  finally show ?thesis
    by (simp add: range_step_def comp_def)
qed

lemma drop_add_2_Cons_Cons: "drop (i + 2) (a # b # xs) = drop i xs"
  by (simp add: numeral_2_eq_2)

lemma encode_Cons_Cons:
  "encode (a # b # message)
   = (push_bit 8 (of_char a) OR of_char b) # encode message"
  by (simp add: encode_def bytes_per_packet_def range_step_2_Suc_Suc ljust_def comp_def
      drop_add_2_Cons_Cons)

lemma byte_pair_high:
  fixes a b :: nat
  assumes "b < 256"
  shows "(push_bit 8 a OR b) div 256 = a"
proof -
  have "drop_bit 8 (push_bit 8 a OR b) = drop_bit 8 (push_bit 8 a) OR drop_bit 8 b"
    by (rule drop_bit_or)
  also have "drop_bit 8 (push_bit 8 a) = a"
    by (simp add: drop_bit_push_bit)
  also from assms have "drop_bit 8 b = 0"
    by (simp add: drop_bit_eq_div)
  finally show ?thesis
    by (simp add: drop_bit_eq_div)
qed

lemma byte_pair_low:
  fixes a b :: nat
  assumes "b < 256"
  shows "(push_bit 8 a OR b) mod 256 = b"
proof -
  have "take_bit 8 (push_bit 8 a OR b) = take_bit 8 (push_bit 8 a) OR take_bit 8 b"
    by (rule take_bit_or)
  also have "take_bit 8 (push_bit 8 a) = 0"
    by (simp add: take_bit_push_bit)
  also from assms have "take_bit 8 b = b"
    by (simp add: take_bit_eq_mod)
  finally show ?thesis
    by (simp add: take_bit_eq_mod)
qed

lemma decode_word_pair:
  assumes "32 \<le> (of_char a :: nat)" "(of_char a :: nat) \<le> 126"
    and "32 \<le> (of_char b :: nat)" "(of_char b :: nat) \<le> 126"
  shows "decode_word (push_bit 8 (of_char a) OR of_char b) = [a, b]"
proof -
  have hi: "(push_bit 8 (of_char a) OR of_char b) div 256 = (of_char a :: nat)"
    using assms(4) by (intro byte_pair_high) simp
  have lo: "(push_bit 8 (of_char a) OR of_char b) mod 256 = (of_char b :: nat)"
    using assms(4) by (intro byte_pair_low) simp
  have "(of_char a :: nat) mod 256 = of_char a"
    using assms(2) by simp
  with assms show ?thesis
    unfolding decode_word_bytes hi lo by simp
qed


text \<open>
  C7: for a message of even length whose characters all have code points from 32 to
  126 (so none of them is the null character), decoding the identifiers the sender
  computes, one after the other, and joining the results gives the message back. Each
  identifier holds the first character of its chunk in the high byte and the second
  in the low byte.
\<close>

theorem round_trip:
  assumes "\<forall>c\<in>set message. 32 \<le> (of_char c :: nat) \<and> (of_char c :: nat) \<le> 126"
    and "even (length message)"
  shows "concat (map decode_word (encode message)) = message"
  using assms
proof (induction message rule: induct_list012)
  case 1
  show ?case by (simp add: encode_Nil)
next
  case (2 x)
  then show ?case by simp
next
  case (3 a b message)
  from "3.prems" have "concat (map decode_word (encode message)) = message"
    by (intro "3.IH"(1)) simp_all
  moreover from "3.prems" have "decode_word (push_bit 8 (of_char a) OR of_char b) = [a, b]"
    by (intro decode_word_pair) simp_all
  ultimately show ?case
    by (simp add: encode_Cons_Cons)
qed

theorem round_trip_witness:
  "even (length ''Hi!~'') \<and> concat (map decode_word (encode ''Hi!~'')) = ''Hi!~''"
  using round_trip [of "''Hi!~''"]
  by simp

section \<open>Properties of the timing decoder\<close>

lemma upt_split_filter:
  assumes "m \<le> n"
  shows "filter (\<lambda>k. k < m) [0..<n] = [0..<m]"
proof -
  from assms have "[0..<n] = [0..<m] @ [m..<n]"
    by (metis le_add_diff_inverse upt_add_eq_append zero_le)
  moreover have "filter (\<lambda>k. k < m) [0..<m] = [0..<m]"
    by (rule filter_True) simp
  moreover have "filter (\<lambda>k. k < m) [m..<n] = []"
    by (rule filter_False) simp
  ultimately show ?thesis by simp
qed

lemma full_chunk_iff: "min (length bs - k * 8) 8 = 8 \<longleftrightarrow> k < length bs div 8"
  by (simp add: min_def) arith

lemma bits_to_message_chunks:
  "bits_to_message bs
   = map (\<lambda>k. char_of (int_base2 (take 8 (drop (k * 8) bs)))) [0..<length bs div 8]"
proof -
  have "length bs div 8 \<le> (length bs + 8 - 1) div 8"
    by (rule div_le_mono) simp
  then have "filter (\<lambda>k. k < length bs div 8) [0..<(length bs + 8 - 1) div 8]
      = [0..<length bs div 8]"
    by (rule upt_split_filter)
  then show ?thesis
    by (simp add: bits_to_message_def range_step_def filter_map comp_def full_chunk_iff)
qed

lemma foldl_base2:
  "foldl (\<lambda>n d. 2 * n + (if d = CHR ''1'' then 1 else 0)) (n::nat) c
   = n * 2 ^ length c
     + (\<Sum>j<length c. if c ! j = CHR ''1'' then 2 ^ (length c - 1 - j) else 0)"
proof (induction c arbitrary: n)
  case Nil
  show ?case by simp
next
  case (Cons x c)
  let ?w = "\<lambda>c j. if c ! j = CHR ''1'' then 2 ^ (length c - 1 - j) else (0::nat)"
  have "(\<Sum>j<Suc (length c). ?w (x # c) j)
      = ?w (x # c) 0 + (\<Sum>j<length c. ?w (x # c) (Suc j))"
    by (rule sum.lessThan_Suc_shift)
  also have "\<dots> = (if x = CHR ''1'' then 2 ^ length c else 0) + (\<Sum>j<length c. ?w c j)"
    by (simp cong: if_cong)
  finally have shift: "(\<Sum>j<length (x # c). ?w (x # c) j)
      = (if x = CHR ''1'' then 2 ^ length c else 0) + (\<Sum>j<length c. ?w c j)"
    by simp
  have "foldl (\<lambda>n d. 2 * n + (if d = CHR ''1'' then 1 else 0)) n (x # c)
      = (2 * n + (if x = CHR ''1'' then 1 else 0)) * 2 ^ length c + (\<Sum>j<length c. ?w c j)"
    by (simp only: foldl.simps Cons.IH)
  also have "\<dots> = n * 2 ^ length (x # c) + (\<Sum>j<length (x # c). ?w (x # c) j)"
    unfolding shift by (simp add: algebra_simps)
  finally show ?case .
qed

lemma int_base2_sum:
  "int_base2 c = (\<Sum>j<length c. if c ! j = CHR ''1'' then 2 ^ (length c - 1 - j) else 0)"
  by (simp add: int_base2_def foldl_base2)

lemma foldl_base2_bound:
  "foldl (\<lambda>n d. 2 * n + (if d = CHR ''1'' then 1 else 0)) (n::nat) c < (n + 1) * 2 ^ length c"
proof (induction c arbitrary: n)
  case Nil
  show ?case by simp
next
  case (Cons x c)
  have "foldl (\<lambda>n d. 2 * n + (if d = CHR ''1'' then 1 else 0))
        (2 * n + (if x = CHR ''1'' then 1 else 0)) c
      < (2 * n + (if x = CHR ''1'' then 1 else 0) + 1) * 2 ^ length c"
    by (rule Cons.IH)
  also have "\<dots> \<le> (2 * n + 2) * 2 ^ length c"
    by simp
  finally show ?case
    by (simp add: algebra_simps)
qed

lemma int_base2_bound: "int_base2 c < 2 ^ length c"
  using foldl_base2_bound [of 0 c] by (simp add: int_base2_def)


lemma char_of_72: "char_of (72::nat) = CHR ''H''"
  by code_simp

lemma char_of_101: "char_of (101::nat) = CHR ''e''"
  by code_simp

lemma bits_He: "bits_to_message ''0100100001100101'' = ''He''"
  by (simp add: bits_to_message_def range_step_def upt_rec int_base2_def
      char_of_72 char_of_101)

lemma bits_to_message_nth:
  assumes "k < length bs div 8"
  shows "(of_char (bits_to_message bs ! k) :: nat)
    = (\<Sum>j<8. if bs ! (8 * k + j) = CHR ''1'' then 2 ^ (7 - j) else 0)"
proof -
  let ?c = "take 8 (drop (k * 8) bs)"
  from assms have len: "length ?c = 8"
    by (simp add: min_def) arith
  have "int_base2 ?c < 2 ^ length ?c"
    by (rule int_base2_bound)
  with len have small: "int_base2 ?c < 256"
    by simp
  from assms have "bits_to_message bs ! k = char_of (int_base2 ?c)"
    by (simp add: bits_to_message_chunks)
  then have "(of_char (bits_to_message bs ! k) :: nat) = int_base2 ?c"
    using small by simp
  also have "\<dots> = (\<Sum>j<length ?c. if ?c ! j = CHR ''1'' then 2 ^ (length ?c - 1 - j) else 0)"
    by (rule int_base2_sum)
  also have "\<dots> = (\<Sum>j<8. if ?c ! j = CHR ''1'' then 2 ^ (7 - j) else 0)"
    unfolding len by (simp cong: if_cong)
  also have "\<dots> = (\<Sum>j<8. if bs ! (8 * k + j) = CHR ''1'' then 2 ^ (7 - j) else 0)"
  proof (rule sum.cong)
    fix j :: nat
    assume "j \<in> {..<8}"
    then have "j < 8" by simp
    with assms have "?c ! j = bs ! (8 * k + j)"
      by (simp add: mult.commute)
    then show "(if ?c ! j = CHR ''1'' then 2 ^ (7 - j) else (0::nat))
        = (if bs ! (8 * k + j) = CHR ''1'' then 2 ^ (7 - j) else 0)"
      by simp
  qed simp
  finally show ?thesis .
qed

lemma recv_loop_bits_binary:
  "recv_loop threshold s evs = Break s' \<Longrightarrow> set (bits s) \<subseteq> {CHR ''0'', CHR ''1''} \<Longrightarrow>
   set (bits s') \<subseteq> {CHR ''0'', CHR ''1''}"
proof (induction threshold s evs rule: recv_loop.induct)
  case (1 threshold s)
  then show ?case by simp
next
  case (2 threshold s e evs)
  then show ?case by simp
next
  case (3 threshold s data current_time evs)
  then show ?case
    by (auto simp add: Let_def split: if_splits option.splits)
qed

text \<open>
  C9: the message of the timing receiver has one character for every full group of
  eight bits and none for a shorter rest, so 17 bits give two characters. The code
  point of character \<open>k\<close> is the binary value of bits \<open>8k\<close> to \<open>8k + 7\<close>,
  the first of them weighing \<open>2 ^ 7\<close>. The bit string 0100100001100101 gives "He".
  The loop only ever appends the characters 0 and 1 (\<open>recv_loop_bits_binary\<close>).
\<close>

theorem byte_assembly:
  assumes "set bs \<subseteq> {CHR ''0'', CHR ''1''}"
  shows "length (bits_to_message bs) = length bs div 8
    \<and> (\<forall>k<length bs div 8.
          (of_char (bits_to_message bs ! k) :: nat)
          = (\<Sum>j<8. if bs ! (8 * k + j) = CHR ''1'' then 2 ^ (7 - j) else 0))
    \<and> (length bs = 17 \<longrightarrow> length (bits_to_message bs) = 2)
    \<and> bits_to_message ''0100100001100101'' = ''He''"
proof -
  have l: "length (bits_to_message bs) = length bs div 8"
    by (simp add: bits_to_message_chunks)
  then have "length bs = 17 \<longrightarrow> length (bits_to_message bs) = 2"
    by simp
  with l bits_to_message_nth [of _ bs] bits_He show ?thesis
    by blast
qed


theorem byte_assembly_witness:
  "set ''01001000011001011'' \<subseteq> {CHR ''0'', CHR ''1''}
   \<and> length (bits_to_message ''01001000011001011'') = 2
   \<and> (of_char (bits_to_message ''01001000011001011'' ! 1) :: nat) = 101"
proof -
  have h: "set ''01001000011001011'' \<subseteq> {CHR ''0'', CHR ''1''}"
    by simp
  have l: "length ''01001000011001011'' = 17"
    by simp
  from byte_assembly [OF h]
  have len: "length (bits_to_message ''01001000011001011'') = 2"
    and nth: "\<forall>k<length ''01001000011001011'' div 8.
          (of_char (bits_to_message ''01001000011001011'' ! k) :: nat)
          = (\<Sum>j<8. if ''01001000011001011'' ! (8 * k + j) = CHR ''1''
               then 2 ^ (7 - j) else 0)"
    unfolding l by simp_all
  from nth have "(of_char (bits_to_message ''01001000011001011'' ! 1) :: nat)
      = (\<Sum>j<8. if ''01001000011001011'' ! (8 * 1 + j) = CHR ''1'' then 2 ^ (7 - j) else 0)"
    unfolding l by simp
  also have "\<dots> = 101"
    by (simp add: lessThan_nat_numeral lessThan_Suc)
  finally show ?thesis
    using h len by simp
qed


end
